theory Spec2Isabelle
  imports Complex_Main "HOL-Library.Multiset" "HOL-Library.Sublist"
begin

section \<open>Python strings\<close>

text \<open>
  A Python \<^verbatim>\<open>str\<close> is a sequence of Unicode code points, so a string is a list of
  natural numbers here (an 8-bit \<^typ>\<open>char\<close> could not hold an emoji or the Kelvin sign).
  \<open>str\<close> turns an ASCII literal into that representation.
\<close>

type_synonym codepoint = nat
type_synonym pystr = "codepoint list"

definition str :: "string \<Rightarrow> pystr" where
  "str s = map of_char s"

text \<open>
  \<^verbatim>\<open>str.isspace\<close>, the class \<^verbatim>\<open>\s\<close> of \<^verbatim>\<open>re\<close> on a \<^verbatim>\<open>str\<close> pattern and the separators of
  \<^verbatim>\<open>str.split()\<close> are one and the same set of code points: tab to carriage return,
  the four separators U+001C to U+001F, space, U+0085, U+00A0, U+1680, U+2000 to
  U+200A, U+2028, U+2029, U+202F, U+205F and U+3000.
\<close>

definition isspace :: "codepoint \<Rightarrow> bool" where
  "isspace c \<longleftrightarrow>
     (9 \<le> c \<and> c \<le> 13) \<or> (28 \<le> c \<and> c \<le> 32) \<or> c = 133 \<or> c = 160 \<or> c = 5760 \<or>
     (8192 \<le> c \<and> c \<le> 8202) \<or> c = 8232 \<or> c = 8233 \<or> c = 8239 \<or> c = 8287 \<or> c = 12288"

text \<open>The range \<^verbatim>\<open>a-z\<close> of the character class: U+0061 to U+007A.\<close>

definition is_az :: "codepoint \<Rightarrow> bool" where
  "is_az c \<longleftrightarrow> 97 \<le> c \<and> c \<le> 122"

text \<open>
  \<^verbatim>\<open>str.lower()\<close>, code point by code point. \<^verbatim>\<open>A\<close> to \<^verbatim>\<open>Z\<close> go to \<^verbatim>\<open>a\<close> to \<^verbatim>\<open>z\<close>.
  Outside ASCII exactly two code points have a lowercase form holding an ASCII letter:
  U+0130 (capital I with dot above) becomes \<^verbatim>\<open>i\<close> followed by the combining dot
  U+0307, and U+212A (the Kelvin sign) becomes \<^verbatim>\<open>k\<close>. Every other code point is left
  as it is: its real lowercase form, where it has one, is again a code point that is
  neither in \<^verbatim>\<open>a-z\<close> nor whitespace, and \<open>clean_text\<close> deletes it either way.
\<close>

definition lower_cp :: "codepoint \<Rightarrow> pystr" where
  "lower_cp c =
     (if 65 \<le> c \<and> c \<le> 90 then [c + 32]
      else if c = 304 then [105, 775]
      else if c = 8490 then [107]
      else [c])"

definition str_lower :: "pystr \<Rightarrow> pystr" where
  "str_lower s = concat (map lower_cp s)"

text \<open>
  \<^verbatim>\<open>re.sub(pattern, repl, s)\<close> for a pattern that is a single character class: every
  code point of the class is replaced by \<open>repl\<close>, the others are copied.
\<close>

fun re_sub :: "(codepoint \<Rightarrow> bool) \<Rightarrow> pystr \<Rightarrow> pystr \<Rightarrow> pystr" where
  "re_sub cls repl [] = []"
| "re_sub cls repl (c # cs) =
     (if cls c then repl @ re_sub cls repl cs else c # re_sub cls repl cs)"

text \<open>The class \<^verbatim>\<open>[^a-z\s]\<close>.\<close>

definition not_az_space :: "codepoint \<Rightarrow> bool" where
  "not_az_space c \<longleftrightarrow> \<not> (is_az c \<or> isspace c)"

text \<open>
  \<^verbatim>\<open>str.split()\<close> without argument: the maximal runs of non-whitespace code points,
  in order; a run is never empty. \<open>cur\<close> is the run being read.
\<close>

fun split_from :: "pystr \<Rightarrow> pystr \<Rightarrow> pystr list" where
  "split_from cur [] = (if cur = [] then [] else [cur])"
| "split_from cur (c # cs) =
     (if isspace c then (if cur = [] then split_from [] cs else cur # split_from [] cs)
      else split_from (cur @ [c]) cs)"

definition str_split :: "pystr \<Rightarrow> pystr list" where
  "str_split s = split_from [] s"

section \<open>The cells of the feedback column and the errors of the loop\<close>

text \<open>
  A cell of the \<^verbatim>\<open>customer_feedback\<close> column is missing (\<^verbatim>\<open>NaN\<close> or \<^verbatim>\<open>None\<close>, what
  \<^verbatim>\<open>dropna\<close> removes), a string, or some other object (a number, say). Calling
  \<^verbatim>\<open>text.lower()\<close> on anything but a string raises \<^verbatim>\<open>AttributeError\<close>.
\<close>

datatype cell = NaN | Str pystr | Obj

datatype error = AttributeError

fun clean_text :: "cell \<Rightarrow> error + pystr" where
  "clean_text (Str text) = Inr (re_sub not_az_space [] (str_lower text))"
| "clean_text NaN = Inl AttributeError"
| "clean_text Obj = Inl AttributeError"

definition dropna :: "cell list \<Rightarrow> cell list" where
  "dropna col = filter (\<lambda>c. c \<noteq> NaN) col"

section \<open>Orders and the rating filter\<close>

text \<open>
  Of an order the fragment reads two columns. \<^verbatim>\<open>load_data\<close> has made
  \<^verbatim>\<open>service_rating\<close> numeric and dropped the rows where it is missing; a rating is the
  number its float denotes, and the comparison with 2 is exact.
\<close>

record order =
  service_rating :: real
  customer_feedback :: cell

definition negative_df :: "order list \<Rightarrow> order list" where
  "negative_df df = filter (\<lambda>r. service_rating r \<le> 2) df"

section \<open>Counting the phrases\<close>

text \<open>
  A \<^verbatim>\<open>Counter\<close> is a dictionary, which keeps its keys in the order of their first
  insertion: an association list with one entry per phrase. \<^verbatim>\<open>counter[phrase] += 1\<close>
  reads 0 for a phrase that is not there and stores the sum.
\<close>

type_synonym row = "pystr \<times> int"

fun incr :: "pystr \<Rightarrow> row list \<Rightarrow> row list" where
  "incr phrase [] = [(phrase, 0 + 1)]"
| "incr phrase ((k, n) # rest) =
     (if k = phrase then (k, n + 1) # rest else (k, n) # incr phrase rest)"

definition neutral_phrases :: "pystr set" where
  "neutral_phrases =
     {str ''fast delivery'', str ''good service'', str ''quick delivery'',
      str ''nice delivery'', str ''fresh items''}"

text \<open>
  The phrases of one review in the order of the inner loop:
  \<^verbatim>\<open>f"{words[i]} {words[i+1]}"\<close> for \<^verbatim>\<open>i\<close> in \<^verbatim>\<open>range(len(words) - 1)\<close>. The range is
  empty when \<^verbatim>\<open>len(words) - 1\<close> is 0 or -1.
\<close>

definition phrase_at :: "pystr list \<Rightarrow> nat \<Rightarrow> pystr" where
  "phrase_at words i = words ! i @ [32] @ words ! (i + 1)"

definition phrases :: "pystr list \<Rightarrow> pystr list" where
  "phrases words = map (phrase_at words) [0 ..< nat (int (length words) - 1)]"

text \<open>The body of the inner loop, run over the phrases of a review.\<close>

fun count_phrases :: "pystr set \<Rightarrow> pystr list \<Rightarrow> row list \<Rightarrow> row list" where
  "count_phrases denylist [] counter = counter"
| "count_phrases denylist (phrase # rest) counter =
     count_phrases denylist rest
       (if phrase \<notin> denylist then incr phrase counter else counter)"

text \<open>The outer loop; an exception in \<open>clean_text\<close> ends it.\<close>

fun count_reviews :: "pystr set \<Rightarrow> cell list \<Rightarrow> row list \<Rightarrow> error + row list" where
  "count_reviews denylist [] counter = Inr counter"
| "count_reviews denylist (review # rest) counter =
     (case clean_text review of
        Inl e \<Rightarrow> Inl e
      | Inr cleaned \<Rightarrow>
          count_reviews denylist rest
            (count_phrases denylist (phrases (str_split cleaned)) counter))"

section \<open>Ranking\<close>

text \<open>
  \<^verbatim>\<open>sort_values("Frequency", ascending=False)\<close> is called without \<^verbatim>\<open>kind\<close>, so pandas
  takes its default \<^verbatim>\<open>quicksort\<close>, which is not a stable algorithm: the rows come back
  rearranged with the frequencies descending, and nothing is promised about the order
  of rows with equal frequencies. The sorting routine is therefore a parameter
  \<open>sort_values\<close> of the model, and \<open>sorts_descending\<close> is all that is known of it.
\<close>

definition sorts_descending :: "(row list \<Rightarrow> row list) \<Rightarrow> bool" where
  "sorts_descending sort_values \<longleftrightarrow>
     (\<forall>rows. mset (sort_values rows) = mset rows \<and>
             sorted_wrt (\<lambda>a b. snd a \<ge> snd b) (sort_values rows))"

text \<open>
  Two routines that sort descending. The first is stable (what \<^verbatim>\<open>kind="stable"\<close> would
  give); the second sorts ascending and turns the result around, which reverses the
  rows of equal frequency.
\<close>

definition sort_values_stable :: "row list \<Rightarrow> row list" where
  "sort_values_stable rows = sort_key (\<lambda>r. - snd r) rows"


text \<open>
  \<^verbatim>\<open>DataFrame.head(n)\<close> is \<^verbatim>\<open>iloc[:n]\<close>: the first \<open>n\<close> rows, and for a negative \<open>n\<close>
  all rows but the last \<open>-n\<close>.
\<close>

definition head :: "int \<Rightarrow> 'a list \<Rightarrow> 'a list" where
  "head n rows = (if 0 \<le> n then take (nat n) rows else take (length rows - nat (- n)) rows)"

text \<open>
  Lines 166 to 189 as a function of the filtered frame \<open>df\<close>. The set of neutral
  phrases and the number of rows kept are arguments; the program passes
  \<open>neutral_phrases\<close> and 10.
\<close>

definition counter_items :: "pystr set \<Rightarrow> order list \<Rightarrow> error + row list" where
  "counter_items denylist df =
     count_reviews denylist (dropna (map customer_feedback (negative_df df))) []"

definition bigram_df ::
  "(row list \<Rightarrow> row list) \<Rightarrow> pystr set \<Rightarrow> int \<Rightarrow> order list \<Rightarrow> error + row list" where
  "bigram_df sort_values denylist top_k df =
     (case counter_items denylist df of
        Inl e \<Rightarrow> Inl e
      | Inr items \<Rightarrow> Inr (head top_k (sort_values items)))"

definition program :: "(row list \<Rightarrow> row list) \<Rightarrow> order list \<Rightarrow> error + row list" where
  "program sort_values df = bigram_df sort_values neutral_phrases 10 df"

section \<open>The fragment as a step on the module's variables\<close>



section \<open>Notions for stating the properties\<close>

text \<open>The normalized text of a string, its tokens and the phrases the inner loop forms.\<close>

definition cleaned :: "pystr \<Rightarrow> pystr" where
  "cleaned text = re_sub not_az_space [] (str_lower text)"

definition tokens :: "pystr \<Rightarrow> pystr list" where
  "tokens text = str_split (cleaned text)"

definition review_phrases :: "pystr \<Rightarrow> pystr list" where
  "review_phrases text = phrases (tokens text)"

definition all_phrases :: "pystr list \<Rightarrow> pystr list" where
  "all_phrases texts = concat (map review_phrases texts)"

text \<open>The strings of a column, in order.\<close>

fun strings_of :: "cell list \<Rightarrow> pystr list" where
  "strings_of [] = []"
| "strings_of (Str text # rest) = text # strings_of rest"
| "strings_of (c # rest) = strings_of rest"

text \<open>The strings of the feedback the loop reads.\<close>

definition negative_texts :: "order list \<Rightarrow> pystr list" where
  "negative_texts df = strings_of (map customer_feedback (negative_df df))"

text \<open>The elements of a list in the order of their first occurrence.\<close>

fun first_seen :: "'a list \<Rightarrow> 'a list" where
  "first_seen [] = []"
| "first_seen (x # xs) = x # first_seen (filter (\<lambda>y. y \<noteq> x) xs)"

text \<open>An order with a rating and an ASCII feedback string.\<close>

definition feedback :: "real \<Rightarrow> string \<Rightarrow> order" where
  "feedback rating s = \<lparr>service_rating = rating, customer_feedback = Str (str s)\<rparr>"


definition late_orders :: "order list" where
  "late_orders = [feedback 1 ''late delivery again'', feedback 2 ''late delivery always'']"

definition twelve_phrases :: "order list" where
  "twelve_phrases =
     [feedback 1 ''a b c d e f g h i j k l m'', feedback 2 ''l m a b'', feedback 1.5 ''a b'']"

definition twelve_rows :: "row list" where
  "twelve_rows =
     [(str ''a b'', 3), (str ''l m'', 2), (str ''b c'', 1), (str ''c d'', 1), (str ''d e'', 1),
      (str ''e f'', 1), (str ''f g'', 1), (str ''g h'', 1), (str ''h i'', 1), (str ''i j'', 1),
      (str ''j k'', 1), (str ''k l'', 1), (str ''m a'', 1)]"

definition blank_orders :: "order list" where
  "blank_orders =
     [\<lparr>service_rating = 1, customer_feedback = NaN\<rparr>, feedback 1 [], feedback 1 ''   '',
      feedback 2 ''12 !?'']"



section \<open>Strings: normalization and splitting\<close>

text \<open>The definitions a concrete text is evaluated with.\<close>

lemmas text_defs =
  str_def str_lower_def lower_cp_def not_az_space_def is_az_def isspace_def str_split_def
  cleaned_def tokens_def review_phrases_def phrases_def phrase_at_def all_phrases_def









lemma split_from_all_space: "\<forall>c\<in>set s. isspace c \<Longrightarrow> split_from [] s = []"
  by (induction s) auto

lemma length_phrases: "length (phrases words) = length words - 1"
  by (simp add: phrases_def nat_diff_distrib')

lemma nth_phrases:
  "i < length (phrases words) \<Longrightarrow> phrases words ! i = words ! i @ [32] @ words ! (i + 1)"
  by (simp add: phrases_def phrase_at_def)

lemma phrases_short: "length words \<le> 1 \<Longrightarrow> phrases words = []"
  by (simp add: phrases_def)

section \<open>The counter\<close>

lemma keys_incr:
  "map fst (incr p c) = (if p \<in> fst ` set c then map fst c else map fst c @ [p])"
  by (induction p c rule: incr.induct) auto

lemma map_of_incr:
  "map_of (incr p c) = (map_of c)(p \<mapsto> (case map_of c p of None \<Rightarrow> 1 | Some n \<Rightarrow> n + 1))"
  by (induction p c rule: incr.induct) (auto simp: fun_eq_iff)

lemma distinct_incr: "distinct (map fst c) \<Longrightarrow> distinct (map fst (incr p c))"
  by (simp add: keys_incr)

lemma positive_incr: "\<forall>r\<in>set c. 1 \<le> snd r \<Longrightarrow> \<forall>r\<in>set (incr p c). 1 \<le> snd r"
  by (induction p c rule: incr.induct) auto

lemma count_phrases_append:
  "count_phrases dl (ps @ qs) c = count_phrases dl qs (count_phrases dl ps c)"
  by (induction ps arbitrary: c) auto

lemma distinct_count_phrases:
  "distinct (map fst c) \<Longrightarrow> distinct (map fst (count_phrases dl ps c))"
  by (induction ps arbitrary: c) (auto simp: distinct_incr)

lemma positive_count_phrases:
  "\<forall>r\<in>set c. 1 \<le> snd r \<Longrightarrow> \<forall>r\<in>set (count_phrases dl ps c). 1 \<le> snd r"
proof (induction ps arbitrary: c)
  case Nil
  then show ?case by simp
next
  case (Cons p ps)
  show ?case
    using Cons.IH [of "incr p c"] Cons.IH [of c] positive_incr [OF Cons.prems, of p]
      Cons.prems by simp
qed

lemma set_first_seen: "set (first_seen xs) = set xs"
  by (induction xs rule: first_seen.induct) auto

lemma distinct_first_seen: "distinct (first_seen xs)"
  by (induction xs rule: first_seen.induct) (auto simp: set_first_seen)

lemma keys_count_phrases:
  "map fst (count_phrases dl ps c) =
     map fst c @ first_seen (filter (\<lambda>p. p \<notin> dl \<and> p \<notin> fst ` set c) ps)"
proof (induction ps arbitrary: c)
  case Nil
  then show ?case by simp
next
  case (Cons p ps)
  show ?case
  proof (cases "p \<notin> dl \<and> p \<notin> fst ` set c")
    case True
    have "set (map fst (incr p c)) = set (map fst c @ [p])"
      using keys_incr [of p c] True by simp
    then have keys: "fst ` set (incr p c) = insert p (fst ` set c)"
      by simp
    have "filter (\<lambda>q. q \<notin> dl \<and> q \<notin> fst ` set (incr p c)) ps =
          filter (\<lambda>y. y \<noteq> p) (filter (\<lambda>q. q \<notin> dl \<and> q \<notin> fst ` set c) ps)"
      by (auto simp: keys intro: filter_cong)
    then show ?thesis using True Cons.IH [of "incr p c"] by (simp add: keys_incr)
  next
    case False
    show ?thesis
    proof (cases "p \<in> dl")
      case True
      then show ?thesis using Cons.IH [of c] by simp
    next
      case notdl: False
      then have inc: "p \<in> fst ` set c" using False by simp
      have "set (map fst (incr p c)) = set (map fst c)"
        using keys_incr [of p c] inc by simp
      then have keys: "fst ` set (incr p c) = fst ` set c"
        by simp
      show ?thesis using notdl inc Cons.IH [of "incr p c"] by (simp add: keys keys_incr)
    qed
  qed
qed

lemma map_of_count_phrases:
  "map_of (count_phrases dl ps c) p =
     (if p \<in> dl \<or> p \<notin> set ps then map_of c p
      else Some ((case map_of c p of None \<Rightarrow> 0 | Some n \<Rightarrow> n) + int (count_list ps p)))"
proof (induction ps arbitrary: c)
  case Nil
  then show ?case by simp
next
  case (Cons q ps)
  show ?case
    using Cons.IH [of "incr q c"] Cons.IH [of c]
    by (auto simp: map_of_incr split: option.splits)
qed

lemma count_reviews_strings:
  "Obj \<notin> set cells \<Longrightarrow> NaN \<notin> set cells \<Longrightarrow>
   count_reviews dl cells c = Inr (count_phrases dl (all_phrases (strings_of cells)) c)"
proof (induction cells arbitrary: c)
  case Nil
  then show ?case by (simp add: all_phrases_def)
next
  case (Cons x cells)
  then obtain t where x: "x = Str t" by (cases x) auto
  show ?case
    using Cons x
    by (simp add: cleaned_def all_phrases_def review_phrases_def tokens_def
        count_phrases_append)
qed

lemma strings_of_dropna: "strings_of (dropna cells) = strings_of cells"
  by (induction cells rule: strings_of.induct) (auto simp: dropna_def)

lemma counter_items_strings:
  assumes "Obj \<notin> set (map customer_feedback (negative_df df))"
  shows "counter_items dl df = Inr (count_phrases dl (all_phrases (negative_texts df)) [])"
proof -
  let ?col = "map customer_feedback (negative_df df)"
  have "Obj \<notin> set (dropna ?col)" "NaN \<notin> set (dropna ?col)"
    using assms by (auto simp: dropna_def)
  then show ?thesis
    unfolding counter_items_def negative_texts_def
    by (simp add: count_reviews_strings strings_of_dropna)
qed

section \<open>Normalization and tokens\<close>



section \<open>Phrases of a text and global counts\<close>

text \<open>
  Claim C4. A text with \<open>N \<ge> 2\<close> tokens yields \<open>N - 1\<close> phrases before the neutral
  phrases are filtered out, the phrase at position \<open>i\<close> being token \<open>i\<close>, a space and
  token \<open>i + 1\<close> (a window of width 2 moved by 1); a text with at most one token yields
  none. When the column holds strings and missing entries only, the loop ends with a
  counter that maps every phrase outside the denylist to the number of its occurrences
  in the phrases of all texts together, and holds no other phrase.
\<close>

theorem phrases_window_and_global_counts:
  "(2 \<le> length (tokens text) \<longrightarrow> length (review_phrases text) = length (tokens text) - 1) \<and>
   (length (tokens text) \<le> 1 \<longrightarrow> review_phrases text = []) \<and>
   (\<forall>i < length (review_phrases text).
      review_phrases text ! i = tokens text ! i @ [32] @ tokens text ! (i + 1)) \<and>
   (Obj \<notin> set (map customer_feedback (negative_df df)) \<longrightarrow>
      (\<exists>items. counter_items dl df = Inr items \<and> distinct (map fst items) \<and>
         (\<forall>p. map_of items p =
            (if p \<notin> dl \<and> p \<in> set (all_phrases (negative_texts df))
             then Some (int (count_list (all_phrases (negative_texts df)) p)) else None))))"
proof (intro conjI impI)
  show "length (review_phrases text) = length (tokens text) - 1"
    by (simp add: review_phrases_def length_phrases)
  show "review_phrases text = []" if "length (tokens text) \<le> 1"
    using that by (simp add: review_phrases_def phrases_short)
  show "\<forall>i < length (review_phrases text).
      review_phrases text ! i = tokens text ! i @ [32] @ tokens text ! (i + 1)"
    by (simp add: review_phrases_def nth_phrases)
  assume ok: "Obj \<notin> set (map customer_feedback (negative_df df))"
  let ?ps = "all_phrases (negative_texts df)"
  let ?items = "count_phrases dl ?ps []"
  have "counter_items dl df = Inr ?items"
    by (rule counter_items_strings [OF ok])
  moreover have "distinct (map fst ?items)"
    by (rule distinct_count_phrases) simp
  moreover have "\<forall>p. map_of ?items p =
      (if p \<notin> dl \<and> p \<in> set ?ps then Some (int (count_list ?ps p)) else None)"
    by (simp add: map_of_count_phrases)
  ultimately show "\<exists>items. counter_items dl df = Inr items \<and> distinct (map fst items) \<and>
         (\<forall>p. map_of items p =
            (if p \<notin> dl \<and> p \<in> set ?ps then Some (int (count_list ?ps p)) else None))"
    by blast
qed

theorem phrases_window_and_global_counts_witness:
  "2 \<le> length (tokens (str ''late delivery again'')) \<and>
   length (review_phrases (str ''late delivery again'')) = 2 \<and>
   length (tokens (str ''late'')) \<le> 1 \<and> review_phrases (str ''late'') = [] \<and>
   review_phrases (str ''late delivery again'') ! 1 = str ''delivery again'' \<and>
   Obj \<notin> set (map customer_feedback (negative_df late_orders)) \<and>
   (\<exists>items. counter_items {} late_orders = Inr items \<and>
      map_of items (str ''late delivery'') = Some 2 \<and>
      map_of items (str ''delivery always'') = Some 1 \<and>
      map_of items (str ''late again'') = None)"
proof -
  note a = phrases_window_and_global_counts [of "str ''late delivery again''" late_orders "{}"]
  note b = phrases_window_and_global_counts [of "str ''late''" late_orders "{}"]
  have t: "tokens (str ''late delivery again'') = [str ''late'', str ''delivery'', str ''again'']"
    by (simp add: text_defs)
  have t1: "tokens (str ''late'') = [str ''late'']"
    by (simp add: text_defs)
  have ok: "Obj \<notin> set (map customer_feedback (negative_df late_orders))"
    by (simp add: late_orders_def feedback_def negative_df_def)
  have ps: "all_phrases (negative_texts late_orders) =
      [str ''late delivery'', str ''delivery again'', str ''late delivery'', str ''delivery always'']"
    by (simp add: late_orders_def feedback_def negative_df_def negative_texts_def text_defs upt_rec)
  from a ok obtain items where items: "counter_items {} late_orders = Inr items"
    and look: "\<And>p. map_of items p =
            (if p \<notin> {} \<and> p \<in> set (all_phrases (negative_texts late_orders))
             then Some (int (count_list (all_phrases (negative_texts late_orders)) p)) else None)"
    by blast
  have m1: "map_of items (str ''late delivery'') = Some 2"
    by (simp add: look ps str_def)
  have m2: "map_of items (str ''delivery always'') = Some 1"
    by (simp add: look ps str_def)
  have m3: "map_of items (str ''late again'') = None"
    by (simp add: look ps str_def)
  have l1: "length (review_phrases (str ''late delivery again'')) = 2"
    using a t by simp
  have l2: "review_phrases (str ''late'') = []"
    using b t1 by simp
  have "review_phrases (str ''late delivery again'') ! 1 =
      tokens (str ''late delivery again'') ! 1 @ [32] @ tokens (str ''late delivery again'') ! (1 + 1)"
    using a l1 by simp
  also have "\<dots> = str ''delivery again''"
    unfolding t by (simp add: str_def)
  finally have n1: "review_phrases (str ''late delivery again'') ! 1 = str ''delivery again''" .
  have g1: "2 \<le> length (tokens (str ''late delivery again''))" by (simp add: t)
  have g2: "length (tokens (str ''late'')) \<le> 1" by (simp add: t1)
  from items m1 m2 m3 have ex: "\<exists>items. counter_items {} late_orders = Inr items \<and>
      map_of items (str ''late delivery'') = Some 2 \<and>
      map_of items (str ''delivery always'') = Some 1 \<and>
      map_of items (str ''late again'') = None"
    by blast
  show ?thesis
    using g1 l1 g2 l2 n1 ok ex by blast
qed

section \<open>Sorting and truncation\<close>

lemma sorts_descending_stable: "sorts_descending sort_values_stable"
proof -
  have "sorted_wrt (\<lambda>a b. snd a \<ge> snd b) (sort_key (\<lambda>r. - snd r) rows)" for rows :: "row list"
    using sorted_sort_key [of "\<lambda>r. - snd r" rows] by (simp add: sorted_wrt_map)
  then show ?thesis
    by (simp add: sorts_descending_def sort_values_stable_def)
qed


lemma sorts_descending_set: "sorts_descending srt \<Longrightarrow> set (srt rows) = set rows"
  unfolding sorts_descending_def by (metis mset_eq_setD)

lemma sorts_descending_length: "sorts_descending srt \<Longrightarrow> length (srt rows) = length rows"
  unfolding sorts_descending_def by (metis mset_eq_length)

lemma sorts_descending_sorted:
  "sorts_descending srt \<Longrightarrow> sorted_wrt (\<lambda>a b. snd a \<ge> snd b) (srt rows)"
  unfolding sorts_descending_def by blast

lemma sorts_descending_Nil: "sorts_descending srt \<Longrightarrow> srt [] = []"
  using sorts_descending_length [of srt "[]"] by simp

lemma head_take: "head n rows = take (if 0 \<le> n then nat n else length rows - nat (- n)) rows"
  by (simp add: head_def)

lemma set_head: "set (head n rows) \<subseteq> set rows"
  unfolding head_take by (rule set_take_subset)

lemma sorted_wrt_head: "sorted_wrt P rows \<Longrightarrow> sorted_wrt P (head n rows)"
  unfolding head_take by (rule sorted_wrt_take)

lemma length_head: "0 \<le> n \<Longrightarrow> int (length (head n rows)) \<le> n"
  by (simp add: head_def)

lemma head_Nil: "head n [] = []"
  by (simp add: head_def)


section \<open>When the loop ends without an exception\<close>

lemma count_reviews_Inr:
  "count_reviews dl cells c = Inr items \<Longrightarrow> Obj \<notin> set cells \<and> NaN \<notin> set cells"
proof (induction cells arbitrary: c)
  case Nil
  then show ?case by simp
next
  case (Cons x cells)
  then show ?case by (cases x) auto
qed

lemma counter_items_Inr:
  assumes "counter_items dl df = Inr items"
  shows "Obj \<notin> set (map customer_feedback (negative_df df))"
    and "items = count_phrases dl (all_phrases (negative_texts df)) []"
proof -
  have "Obj \<notin> set (dropna (map customer_feedback (negative_df df)))"
    using assms count_reviews_Inr unfolding counter_items_def by blast
  then show ok: "Obj \<notin> set (map customer_feedback (negative_df df))"
    by (auto simp: dropna_def)
  show "items = count_phrases dl (all_phrases (negative_texts df)) []"
    using counter_items_strings [OF ok, of dl] assms by simp
qed

lemma bigram_df_Inr:
  assumes "bigram_df srt dl k df = Inr result"
  shows "\<exists>items. counter_items dl df = Inr items \<and> result = head k (srt items)"
  using assms by (auto simp: bigram_df_def split: sum.splits)

lemma keys_counter:
  "fst ` set (count_phrases dl ps []) = set ps - dl"
proof -
  have "set (map fst (count_phrases dl ps [])) = set ps - dl"
    unfolding keys_count_phrases by (auto simp: set_first_seen)
  then show ?thesis by simp
qed
section \<open>The ranked table\<close>

text \<open>
  Claim C2. Whatever routine sorts the table, as long as it sorts by frequency
  descending: the table \<open>bigram_df\<close> has at most \<open>top_k\<close> rows (for \<open>top_k \<ge> 0\<close>; the
  program passes 10), its frequencies never increase from one row to the next, and every
  frequency is at least 1.
\<close>

theorem ranked_table_bounds:
  assumes "sorts_descending sort_values"
    and "bigram_df sort_values dl top_k df = Inr result"
  shows "(0 \<le> top_k \<longrightarrow> int (length result) \<le> top_k) \<and>
         sorted_wrt (\<lambda>a b. snd a \<ge> snd b) result \<and>
         (\<forall>r\<in>set result. 1 \<le> snd r)"
proof -
  from assms(2) obtain items where items: "counter_items dl df = Inr items"
    and result: "result = head top_k (sort_values items)"
    using bigram_df_Inr by blast
  have "items = count_phrases dl (all_phrases (negative_texts df)) []"
    using counter_items_Inr(2) [OF items] .
  then have pos: "\<forall>r\<in>set items. 1 \<le> snd r"
    using positive_count_phrases [of "[]" dl "all_phrases (negative_texts df)"] by simp
  have "set result \<subseteq> set items"
    using set_head [of top_k "sort_values items"] sorts_descending_set [OF assms(1), of items]
    by (simp add: result)
  with pos have "\<forall>r\<in>set result. 1 \<le> snd r" by blast
  moreover have "sorted_wrt (\<lambda>a b. snd a \<ge> snd b) result"
    unfolding result by (rule sorted_wrt_head) (rule sorts_descending_sorted [OF assms(1)])
  moreover have "0 \<le> top_k \<longrightarrow> int (length result) \<le> top_k"
    unfolding result by (simp add: length_head)
  ultimately show ?thesis by blast
qed

theorem ranked_table_bounds_witness:
  "sorts_descending sort_values_stable \<and>
   program sort_values_stable twelve_phrases = Inr (take 10 twelve_rows) \<and>
   int (length (take 10 twelve_rows)) \<le> 10 \<and>
   sorted_wrt (\<lambda>a b. snd a \<ge> snd b) (take 10 twelve_rows)"
proof -
  have run: "bigram_df sort_values_stable neutral_phrases 10 twelve_phrases =
      Inr (take 10 twelve_rows)"
    by (simp add: neutral_phrases_def bigram_df_def counter_items_def dropna_def
        sort_values_stable_def head_def twelve_phrases_def twelve_rows_def feedback_def
        negative_df_def text_defs upt_rec)
  note inst = ranked_table_bounds [OF sorts_descending_stable run]
  show ?thesis
    using sorts_descending_stable run inst by (simp add: program_def)
qed

text \<open>
  Claim C3. No phrase of the denylist is in the table, and the phrases the counter holds
  are exactly the phrases formed from the texts that are not themselves elements of the
  denylist: a phrase is left out only when it is equal to an entry, never because it
  contains an entry or is part of one.
\<close>

theorem denylist_exact_match:
  assumes "sorts_descending sort_values"
    and "bigram_df sort_values dl top_k df = Inr result"
  shows "(\<forall>r\<in>set result. fst r \<notin> dl) \<and>
         (\<exists>items. counter_items dl df = Inr items \<and>
            fst ` set items = set (all_phrases (negative_texts df)) - dl)"
proof -
  from assms(2) obtain items where items: "counter_items dl df = Inr items"
    and result: "result = head top_k (sort_values items)"
    using bigram_df_Inr by blast
  have "items = count_phrases dl (all_phrases (negative_texts df)) []"
    using counter_items_Inr(2) [OF items] .
  then have keys: "fst ` set items = set (all_phrases (negative_texts df)) - dl"
    by (simp add: keys_counter)
  have "set result \<subseteq> set items"
    using set_head [of top_k "sort_values items"] sorts_descending_set [OF assms(1), of items]
    by (simp add: result)
  with keys have "\<forall>r\<in>set result. fst r \<notin> dl" by blast
  with items keys show ?thesis by blast
qed

theorem denylist_exact_match_witness:
  "sorts_descending sort_values_stable \<and>
   program sort_values_stable [feedback 1 ''fast delivery fast deliveryman fast deliver''] =
     Inr [(str ''delivery fast'', 1), (str ''fast deliveryman'', 1),
          (str ''deliveryman fast'', 1), (str ''fast deliver'', 1)] \<and>
   str ''fast delivery'' \<in> neutral_phrases \<and>
   str ''fast deliveryman'' \<notin> neutral_phrases \<and>
   str ''fast deliver'' \<notin> neutral_phrases"
proof -
  let ?df = "[feedback 1 ''fast delivery fast deliveryman fast deliver'']"
  have run: "bigram_df sort_values_stable neutral_phrases 10 ?df =
     Inr [(str ''delivery fast'', 1), (str ''fast deliveryman'', 1),
          (str ''deliveryman fast'', 1), (str ''fast deliver'', 1)]"
    by (simp add: neutral_phrases_def bigram_df_def counter_items_def dropna_def
        sort_values_stable_def head_def feedback_def negative_df_def text_defs upt_rec)
  note inst = denylist_exact_match [OF sorts_descending_stable run]
  have mem: "str ''fast delivery'' \<in> neutral_phrases \<and>
      str ''fast deliveryman'' \<notin> neutral_phrases \<and> str ''fast deliver'' \<notin> neutral_phrases"
    by (simp add: neutral_phrases_def str_def)
  show ?thesis
    using sorts_descending_stable run inst mem by (simp add: program_def)
qed

section \<open>Rows that add nothing to the counter\<close>

lemma count_reviews_append:
  "count_reviews dl (xs @ ys) c =
     (case count_reviews dl xs c of Inl e \<Rightarrow> Inl e | Inr c' \<Rightarrow> count_reviews dl ys c')"
  by (induction xs arbitrary: c) (auto split: sum.splits)

lemma tokens_blank: "\<forall>c\<in>set (cleaned t). isspace c \<Longrightarrow> tokens t = []"
  by (simp add: tokens_def str_split_def split_from_all_space)

lemma review_phrases_blank: "\<forall>c\<in>set (cleaned t). isspace c \<Longrightarrow> review_phrases t = []"
  by (simp add: review_phrases_def tokens_blank phrases_def)

lemma count_reviews_skip:
  "review_phrases t = [] \<Longrightarrow>
   count_reviews dl (xs @ Str t # ys) c = count_reviews dl (xs @ ys) c"
  by (simp add: count_reviews_append review_phrases_def tokens_def cleaned_def split: sum.splits)

lemma set_strings_of: "set (strings_of cells) = {t. Str t \<in> set cells}"
  by (induction cells rule: strings_of.induct) auto

lemma strings_of_append: "strings_of (xs @ ys) = strings_of xs @ strings_of ys"
  by (induction xs rule: strings_of.induct) auto

lemma negative_df_append: "negative_df (xs @ ys) = negative_df xs @ negative_df ys"
  by (simp add: negative_df_def)

lemma negative_texts_append: "negative_texts (xs @ ys) = negative_texts xs @ negative_texts ys"
  by (simp add: negative_texts_def negative_df_append strings_of_append)

lemma counter_items_drop_row:
  assumes "2 < service_rating r \<or> customer_feedback r = NaN \<or>
           (\<exists>t. customer_feedback r = Str t \<and> review_phrases t = [])"
  shows "counter_items dl (xs @ r # ys) = counter_items dl (xs @ ys)"
proof (cases "2 < service_rating r \<or> customer_feedback r = NaN")
  case True
  then show ?thesis
    by (auto simp: counter_items_def negative_df_def dropna_def)
next
  case False
  with assms obtain t where t: "customer_feedback r = Str t" "review_phrases t = []"
    by blast
  from False have "service_rating r \<le> 2" by simp
  then have "dropna (map customer_feedback (negative_df (xs @ r # ys))) =
      dropna (map customer_feedback (negative_df xs)) @ Str t #
      dropna (map customer_feedback (negative_df ys))"
    by (simp add: negative_df_def dropna_def t)
  moreover have "dropna (map customer_feedback (negative_df (xs @ ys))) =
      dropna (map customer_feedback (negative_df xs)) @
      dropna (map customer_feedback (negative_df ys))"
    by (simp add: negative_df_def dropna_def)
  ultimately show ?thesis
    unfolding counter_items_def using count_reviews_skip [OF t(2)] by simp
qed

lemma bigram_df_drop_row:
  assumes "2 < service_rating r \<or> customer_feedback r = NaN \<or>
           (\<exists>t. customer_feedback r = Str t \<and> review_phrases t = [])"
  shows "bigram_df srt dl k (xs @ r # ys) = bigram_df srt dl k (xs @ ys)"
  unfolding bigram_df_def counter_items_drop_row [OF assms] ..

lemma all_blank_no_phrases:
  assumes "\<forall>r\<in>set df. customer_feedback r = NaN \<or>
             (\<exists>t. customer_feedback r = Str t \<and> (\<forall>c\<in>set (cleaned t). isspace c))"
  shows "counter_items dl df = Inr []"
proof -
  have sub: "set (negative_df df) \<subseteq> set df"
    by (auto simp: negative_df_def)
  have ok: "Obj \<notin> set (map customer_feedback (negative_df df))"
    using assms sub by fastforce
  have "review_phrases t = []" if "t \<in> set (negative_texts df)" for t
  proof -
    from that obtain r where "r \<in> set df" "customer_feedback r = Str t"
      using sub by (auto simp: negative_texts_def set_strings_of)
    with assms have "\<forall>c\<in>set (cleaned t). isspace c" by fastforce
    then show ?thesis by (rule review_phrases_blank)
  qed
  then have "all_phrases (negative_texts df) = []"
    by (simp add: all_phrases_def)
  then show ?thesis
    using counter_items_strings [OF ok, of dl] by simp
qed

section \<open>Words joined by deleted characters\<close>





section \<open>Missing and blank feedback\<close>

text \<open>
  Claim C7. A row whose feedback is missing leaves the table as it is without the row,
  and so does a row whose normalized text is empty or whitespace only (it yields no
  phrase). When every row is of one of these two kinds (an empty frame included), the
  table is empty, for every \<open>top_k\<close>; no exception is raised in any of these cases.
\<close>

theorem missing_and_blank_feedback:
  "(customer_feedback r = NaN \<longrightarrow>
      bigram_df sort_values dl top_k (xs @ r # ys) = bigram_df sort_values dl top_k (xs @ ys)) \<and>
   (customer_feedback r = Str t \<and> (\<forall>c\<in>set (cleaned t). isspace c) \<longrightarrow>
      review_phrases t = [] \<and>
      bigram_df sort_values dl top_k (xs @ r # ys) = bigram_df sort_values dl top_k (xs @ ys)) \<and>
   (sorts_descending sort_values \<and>
    (\<forall>r\<in>set df. customer_feedback r = NaN \<or>
       (\<exists>t. customer_feedback r = Str t \<and> (\<forall>c\<in>set (cleaned t). isspace c))) \<longrightarrow>
      bigram_df sort_values dl top_k df = Inr [])"
proof (intro conjI impI)
  assume "customer_feedback r = NaN"
  then show "bigram_df sort_values dl top_k (xs @ r # ys) = bigram_df sort_values dl top_k (xs @ ys)"
    by (intro bigram_df_drop_row) simp
next
  assume a: "customer_feedback r = Str t \<and> (\<forall>c\<in>set (cleaned t). isspace c)"
  then show blank: "review_phrases t = []"
    by (intro review_phrases_blank) simp
  with a show "bigram_df sort_values dl top_k (xs @ r # ys) = bigram_df sort_values dl top_k (xs @ ys)"
    by (intro bigram_df_drop_row) simp
next
  assume a: "sorts_descending sort_values \<and>
    (\<forall>r\<in>set df. customer_feedback r = NaN \<or>
       (\<exists>t. customer_feedback r = Str t \<and> (\<forall>c\<in>set (cleaned t). isspace c)))"
  then have "counter_items dl df = Inr []"
    by (intro all_blank_no_phrases) simp
  with a show "bigram_df sort_values dl top_k df = Inr []"
    by (simp add: bigram_df_def sorts_descending_Nil head_Nil)
qed

theorem missing_and_blank_feedback_witness:
  "bigram_df sort_values_stable {} 5
      ([feedback 1 ''late delivery''] @ \<lparr>service_rating = 1, customer_feedback = NaN\<rparr> # []) =
   bigram_df sort_values_stable {} 5 ([feedback 1 ''late delivery''] @ []) \<and>
   bigram_df sort_values_stable {} 5 ([feedback 1 ''late delivery''] @ feedback 1 ''12 !?'' # []) =
   bigram_df sort_values_stable {} 5 ([feedback 1 ''late delivery''] @ []) \<and>
   bigram_df sort_values_stable {} 5 ([feedback 1 ''late delivery''] @ []) =
     Inr [(str ''late delivery'', 1)] \<and>
   review_phrases (str ''12 !?'') = [] \<and>
   sorts_descending sort_values_stable \<and>
   program sort_values_stable blank_orders = Inr [] \<and>
   program sort_values_stable [] = Inr []"
proof -
  let ?nan = "\<lparr>service_rating = 1, customer_feedback = NaN\<rparr>"
  note a = missing_and_blank_feedback [of ?nan sort_values_stable "{}" 5
      "[feedback 1 ''late delivery'']" "[]" "[]" blank_orders]
  note b = missing_and_blank_feedback [of "feedback 1 ''12 !?''" sort_values_stable "{}" 5
      "[feedback 1 ''late delivery'']" "[]" "str ''12 !?''" blank_orders]
  note c = missing_and_blank_feedback [of ?nan sort_values_stable neutral_phrases 10
      "[]" "[]" "[]" blank_orders]
  note d = missing_and_blank_feedback [of ?nan sort_values_stable neutral_phrases 10
      "[]" "[]" "[]" "[]"]
  have blank: "cleaned (str ''12 !?'') = [32]" "cleaned (str ''   '') = [32, 32, 32]"
    "cleaned [] = []"
    by (simp_all add: text_defs)
  have sp: "isspace 32" by (simp add: isspace_def)
  have fb: "customer_feedback (feedback 1 ''12 !?'') = Str (str ''12 !?'')"
    by (simp add: feedback_def)
  have all: "\<forall>r\<in>set blank_orders. customer_feedback r = NaN \<or>
       (\<exists>t. customer_feedback r = Str t \<and> (\<forall>c\<in>set (cleaned t). isspace c))"
    by (simp add: blank_orders_def feedback_def blank sp) (simp add: str_def blank [unfolded str_def] sp)
  have e1: "bigram_df sort_values_stable {} 5
      ([feedback 1 ''late delivery''] @ ?nan # []) =
      bigram_df sort_values_stable {} 5 ([feedback 1 ''late delivery''] @ [])"
    using a by simp
  have e2: "review_phrases (str ''12 !?'') = [] \<and>
      bigram_df sort_values_stable {} 5 ([feedback 1 ''late delivery''] @ feedback 1 ''12 !?'' # []) =
      bigram_df sort_values_stable {} 5 ([feedback 1 ''late delivery''] @ [])"
    using b fb blank(1) sp by simp
  have e3: "bigram_df sort_values_stable {} 5 ([feedback 1 ''late delivery''] @ []) =
     Inr [(str ''late delivery'', 1)]"
    by (simp add: bigram_df_def counter_items_def dropna_def
        sort_values_stable_def head_def feedback_def negative_df_def text_defs upt_rec)
  have e4: "program sort_values_stable blank_orders = Inr []"
    using c all sorts_descending_stable unfolding program_def by blast
  have e5: "program sort_values_stable [] = Inr []"
    using d sorts_descending_stable unfolding program_def by simp
  show ?thesis
    using e1 e2 e3 e4 e5 sorts_descending_stable by blast
qed

section \<open>The rating filter\<close>

text \<open>
  Claim C9. The fragment itself selects the rows: a row whose \<^verbatim>\<open>service_rating\<close> is
  greater than 2 changes nothing, whatever its feedback holds (even a cell that would
  raise an exception), the table is the one computed from the rows with rating at most
  2 alone, and the text of a row with rating at most 2 is read.
\<close>

theorem only_low_ratings_counted:
  "(2 < service_rating r \<longrightarrow>
      bigram_df sort_values dl top_k (xs @ r # ys) = bigram_df sort_values dl top_k (xs @ ys)) \<and>
   bigram_df sort_values dl top_k df =
     bigram_df sort_values dl top_k (filter (\<lambda>r. service_rating r \<le> 2) df) \<and>
   (service_rating r \<le> 2 \<longrightarrow>
      negative_texts (xs @ r # ys) =
        negative_texts xs @ strings_of [customer_feedback r] @ negative_texts ys)"
proof (intro conjI impI)
  assume "2 < service_rating r"
  then show "bigram_df sort_values dl top_k (xs @ r # ys) = bigram_df sort_values dl top_k (xs @ ys)"
    by (intro bigram_df_drop_row) simp
next
  show "bigram_df sort_values dl top_k df =
     bigram_df sort_values dl top_k (filter (\<lambda>r. service_rating r \<le> 2) df)"
    by (simp add: bigram_df_def counter_items_def negative_df_def)
next
  assume "service_rating r \<le> 2"
  then show "negative_texts (xs @ r # ys) =
        negative_texts xs @ strings_of [customer_feedback r] @ negative_texts ys"
    using negative_texts_append [of xs "r # ys"] negative_texts_append [of "[r]" ys]
    by (simp add: negative_texts_def negative_df_def)
qed

theorem only_low_ratings_counted_witness:
  "(2::real) < service_rating (feedback 3 ''late delivery'') \<and>
   bigram_df sort_values_stable {} 5
      ([feedback 2 ''rude staff''] @ feedback 3 ''late delivery'' # []) =
     Inr [(str ''rude staff'', 1)] \<and>
   (2::real) < service_rating \<lparr>service_rating = 5, customer_feedback = Obj\<rparr> \<and>
   bigram_df sort_values_stable {} 5
      ([feedback 2 ''rude staff''] @ \<lparr>service_rating = 5, customer_feedback = Obj\<rparr> # []) =
     Inr [(str ''rude staff'', 1)] \<and>
   service_rating (feedback 2 ''rude staff'') \<le> (2::real) \<and>
   negative_texts ([] @ feedback 2 ''rude staff'' # []) = [str ''rude staff'']"
proof -
  let ?obj = "\<lparr>service_rating = 5, customer_feedback = Obj\<rparr>"
  note a = only_low_ratings_counted [of "feedback 3 ''late delivery''" sort_values_stable "{}" 5
      "[feedback 2 ''rude staff'']" "[]" "[]"]
  note b = only_low_ratings_counted [of ?obj sort_values_stable "{}" 5
      "[feedback 2 ''rude staff'']" "[]" "[]"]
  note c = only_low_ratings_counted [of "feedback 2 ''rude staff''" sort_values_stable "{}" 5
      "[]" "[]" "[]"]
  have r3: "(2::real) < service_rating (feedback 3 ''late delivery'')"
    by (simp add: feedback_def)
  have r5: "(2::real) < service_rating ?obj" by simp
  have r2: "service_rating (feedback 2 ''rude staff'') \<le> (2::real)"
    by (simp add: feedback_def)
  have run: "bigram_df sort_values_stable {} 5 ([feedback 2 ''rude staff''] @ []) =
      Inr [(str ''rude staff'', 1)]"
    by (simp add: bigram_df_def counter_items_def dropna_def
        sort_values_stable_def head_def feedback_def negative_df_def text_defs upt_rec)
  have e1: "bigram_df sort_values_stable {} 5
      ([feedback 2 ''rude staff''] @ feedback 3 ''late delivery'' # []) =
     Inr [(str ''rude staff'', 1)]"
    using a r3 run by simp
  have e2: "bigram_df sort_values_stable {} 5 ([feedback 2 ''rude staff''] @ ?obj # []) =
     Inr [(str ''rude staff'', 1)]"
    using b r5 run by simp
  have e3: "negative_texts ([] @ feedback 2 ''rude staff'' # []) = [str ''rude staff'']"
    using c r2 by (simp add: negative_texts_def negative_df_def feedback_def)
  show ?thesis
    using r3 e1 r5 e2 r2 e3 by blast
qed

section \<open>Words separated by punctuation only\<close>



section \<open>Ties and exceptions\<close>





section \<open>Limits that are not positive\<close>




section \<open>The order of phrases with equal frequency\<close>




section \<open>Runs of the fragment\<close>



end
